theory Spec2Isabelle
  imports Complex_Main "HOL-Library.Multiset"
begin

section \<open>The span balance tracker of \<open>debugging/open-spans.py\<close>\<close>

text \<open>
  The script reads lines from \<open>fileinput.input()\<close>, decodes each one with
  \<open>json.loads\<close>, counts per span key in a \<open>defaultdict\<close> and finally walks the
  counts. The embedding below follows the script statement by statement: Python values
  as a datatype, exceptions as the left summand of a sum type, the \<open>defaultdict\<close> as an
  association list in insertion order, the two loops as recursive functions.
\<close>

subsection \<open>Python values and exceptions\<close>

text \<open>
  A Python \<open>str\<close> is a sequence of code points; \<open>tuple\<close> of a \<open>str\<close> yields one
  one-character \<open>str\<close> per code point, so code points (not bytes) are the elements.
\<close>

type_synonym pystr = "nat list"

definition py :: "string \<Rightarrow> pystr" where
  "py s = map of_char s"

text \<open>
  A \<open>float\<close> produced by \<open>json.loads\<close>: a finite double, given by its exact value
  (\<open>-0.0\<close> and \<open>0.0\<close> compare equal and hash alike, so the sign of zero is not kept),
  an infinity, or the one \<open>NaN\<close> object of the \<open>json\<close> module.
\<close>

datatype pyfloat = Finite rat | PosInf | NegInf | NaN

text \<open>
  What \<open>json.loads\<close> returns: \<open>None\<close>, \<open>bool\<close>, \<open>int\<close> (unbounded), \<open>float\<close>,
  \<open>str\<close>, \<open>list\<close>, \<open>dict\<close>. A \<open>dict\<close> is given by the pairs of the JSON object in
  the order of the text; a repeated name keeps its first position and its last value.
\<close>

datatype pyval =
    PNone
  | PBool bool
  | PInt int
  | PFloat pyfloat
  | PStr pystr
  | PList "pyval list"
  | PDict "(pystr \<times> pyval) list"

datatype exn =
    JSONDecodeError
  | KeyError pystr
  | TypeError
  | AttributeError
  | BrokenPipeError
  | OSError

subsection \<open>Subscripting, \<open>tuple\<close> and hashing\<close>

text \<open>\<open>obj[name]\<close> for a \<open>str\<close> subscript: only a \<open>dict\<close> accepts it.\<close>

fun getitem :: "pyval \<Rightarrow> pystr \<Rightarrow> exn + pyval" where
  "getitem (PDict kvs) name =
     (case map_of (rev kvs) name of None \<Rightarrow> Inl (KeyError name) | Some v \<Rightarrow> Inr v)"
| "getitem _ name = Inl TypeError"

text \<open>The keys of a \<open>dict\<close> in iteration order: each name once, at its first position.\<close>

fun dict_keys :: "(pystr \<times> pyval) list \<Rightarrow> pystr list" where
  "dict_keys [] = []"
| "dict_keys ((k, v) # kvs) = k # filter (\<lambda>k'. k' \<noteq> k) (dict_keys kvs)"

text \<open>\<open>tuple(x)\<close>: the elements of an iterable, \<open>TypeError\<close> for anything else.\<close>

fun tuple :: "pyval \<Rightarrow> exn + pyval list" where
  "tuple (PList xs) = Inr xs"
| "tuple (PStr s) = Inr (map (\<lambda>c. PStr [c]) s)"
| "tuple (PDict kvs) = Inr (map PStr (dict_keys kvs))"
| "tuple _ = Inl TypeError"

text \<open>
  A tuple is a dictionary key through its hash and \<open>==\<close>. Hashing fails with
  \<open>TypeError\<close> on a \<open>list\<close> or \<open>dict\<close> element. Two hashable elements are the same key
  element exactly when Python's \<open>==\<close> holds (and then their hashes agree): \<open>True\<close>, \<open>1\<close>
  and \<open>1.0\<close> are one key element, as are \<open>False\<close>, \<open>0\<close> and \<open>0.0\<close>; an \<open>int\<close> and a
  \<open>float\<close> compare by exact value. An \<open>atom\<close> is a hashable element up to \<open>==\<close>.
\<close>

datatype atom = ANone | ANum rat | APosInf | ANegInf | ANaN | AStr pystr

type_synonym key = "atom list"

fun hash_elem :: "pyval \<Rightarrow> exn + atom" where
  "hash_elem PNone = Inr ANone"
| "hash_elem (PBool b) = Inr (ANum (if b then 1 else 0))"
| "hash_elem (PInt i) = Inr (ANum (of_int i))"
| "hash_elem (PFloat (Finite r)) = Inr (ANum r)"
| "hash_elem (PFloat PosInf) = Inr APosInf"
| "hash_elem (PFloat NegInf) = Inr ANegInf"
| "hash_elem (PFloat NaN) = Inr ANaN"
| "hash_elem (PStr s) = Inr (AStr s)"
| "hash_elem (PList xs) = Inl TypeError"
| "hash_elem (PDict kvs) = Inl TypeError"

fun hash_tuple :: "pyval list \<Rightarrow> exn + key" where
  "hash_tuple [] = Inr []"
| "hash_tuple (x # xs) =
     (case hash_elem x of
        Inl e \<Rightarrow> Inl e
      | Inr a \<Rightarrow> (case hash_tuple xs of Inl e \<Rightarrow> Inl e | Inr as \<Rightarrow> Inr (a # as)))"

subsection \<open>The balance table\<close>

text \<open>
  \<open>opened = defaultdict(lambda: 0)\<close>: keys in insertion order with their counts.
  \<open>opened[k] += d\<close> reads the entry (a missing key is first inserted with the default
  \<open>0\<close>), adds, and stores the sum at the key's position.
\<close>

type_synonym table = "(key \<times> int) list"

fun iadd :: "key \<Rightarrow> int \<Rightarrow> table \<Rightarrow> table" where
  "iadd k d [] = [(k, 0 + d)]"
| "iadd k d ((k', n) # t) = (if k' = k then (k', n + d) # t else (k', n) # iadd k d t)"

text \<open>The key that \<open>opened[tuple(obj['span'])]\<close> addresses.\<close>

definition span_key :: "pyval \<Rightarrow> exn + key" where
  "span_key obj =
     (case getitem obj (py ''span'') of
        Inl e \<Rightarrow> Inl e
      | Inr s \<Rightarrow> (case tuple s of Inl e \<Rightarrow> Inl e | Inr xs \<Rightarrow> hash_tuple xs))"

subsection \<open>The input loop\<close>

text \<open>
  A line of input is represented by what \<open>json.loads\<close> makes of it: the decoded value,
  or no value when the text is not JSON. Limits of the interpreter (recursion depth,
  digits of an integer literal) are outside the model.
\<close>

datatype line = NotJSON | JSON pyval

definition loads :: "line \<Rightarrow> exn + pyval" where
  "loads l = (case l of NotJSON \<Rightarrow> Inl JSONDecodeError | JSON v \<Rightarrow> Inr v)"

text \<open>The body of the \<open>for\<close> loop, for one line.\<close>

definition body :: "line \<Rightarrow> table \<Rightarrow> exn + table" where
  "body l opened =
     (case loads l of
        Inl e \<Rightarrow> Inl e
      | Inr obj \<Rightarrow>
          (case getitem obj (py ''type'') of
             Inl e \<Rightarrow> Inl e
           | Inr ty \<Rightarrow>
               if ty = PStr (py ''new'')
               then (case span_key obj of Inl e \<Rightarrow> Inl e | Inr k \<Rightarrow> Inr (iadd k 1 opened))
               else (case span_key obj of Inl e \<Rightarrow> Inl e | Inr k \<Rightarrow> Inr (iadd k (- 1) opened))))"

text \<open>
  Each step of the iterator \<open>fileinput.input()\<close> yields a line or raises. The loop ends
  when the input is exhausted or at the first exception, with the table as it then is.
\<close>

datatype item = Line line | Raises exn

fun for_lines :: "item list \<Rightarrow> table \<Rightarrow> exn option \<times> table" where
  "for_lines [] opened = (None, opened)"
| "for_lines (Raises e # rest) opened = (Some e, opened)"
| "for_lines (Line l # rest) opened =
     (case body l opened of
        Inl e \<Rightarrow> (Some e, opened)
      | Inr opened' \<Rightarrow> for_lines rest opened')"

text \<open>\<open>try: ... except BrokenPipeError: pass\<close> around the loop.\<close>

definition try_block :: "item list \<Rightarrow> exn option \<times> table" where
  "try_block items =
     (case for_lines items [] of
        (Some e, opened) \<Rightarrow> if e = BrokenPipeError then (None, opened) else (Some e, opened)
      | (None, opened) \<Rightarrow> (None, opened))"

subsection \<open>The emission loop\<close>

text \<open>
  \<open>open = {}\<close> is an empty \<open>dict\<close>, and a \<open>dict\<close> has no attribute \<open>push\<close>: evaluating
  \<open>open.push(k)\<close> raises \<open>AttributeError\<close> and leaves the \<open>dict\<close> as it was.
\<close>

type_synonym pydict = "(key \<times> pyval) list"

definition push :: "pydict \<Rightarrow> key \<Rightarrow> exn + pydict" where
  "push d k = Inl AttributeError"

fun for_items :: "table \<Rightarrow> pydict \<Rightarrow> exn option \<times> pydict" where
  "for_items [] d = (None, d)"
| "for_items ((k, n) # rest) d =
     (if n > 0
      then (case push d k of Inl e \<Rightarrow> (Some e, d) | Inr d' \<Rightarrow> for_items rest d')
      else for_items rest d)"

subsection \<open>The whole run\<close>

text \<open>
  What a run leaves behind: the uncaught exception that ended it (if any), the two
  dictionaries, and what was written to standard output. The script contains no write.
\<close>

record run =
  uncaught :: "exn option"
  opened :: table
  open' :: pydict
  stdout :: "string list"

definition program :: "item list \<Rightarrow> run" where
  "program items =
     (case try_block items of
        (Some e, t) \<Rightarrow> \<lparr>uncaught = Some e, opened = t, open' = [], stdout = []\<rparr>
      | (None, t) \<Rightarrow>
          (case for_items t [] of
             (ex, d) \<Rightarrow> \<lparr>uncaught = ex, opened = t, open' = d, stdout = []\<rparr>))"

text \<open>The interpreter exits with status 1 after an uncaught exception, else with 0.\<close>

definition exit_code :: "run \<Rightarrow> nat" where
  "exit_code r = (case uncaught r of None \<Rightarrow> 0 | Some e \<Rightarrow> 1)"

subsection \<open>Events, counts and balances\<close>

text \<open>
  The event a line stands for when the loop body runs through on it: whether its
  \<open>type\<close> is the string \<open>"new"\<close>, and the key of its \<open>span\<close>. A line on which the
  body raises, and a step at which the iterator raises, stand for no event.
\<close>

definition event :: "line \<Rightarrow> (bool \<times> key) option" where
  "event l =
     (case loads l of
        Inl e \<Rightarrow> None
      | Inr obj \<Rightarrow>
          (case getitem obj (py ''type'') of
             Inl e \<Rightarrow> None
           | Inr ty \<Rightarrow>
               (case span_key obj of
                  Inl e \<Rightarrow> None
                | Inr k \<Rightarrow> Some (ty = PStr (py ''new''), k))))"

fun item_event :: "item \<Rightarrow> (bool \<times> key) option" where
  "item_event (Line l) = event l"
| "item_event (Raises e) = None"

definition count_new :: "key \<Rightarrow> item list \<Rightarrow> nat" where
  "count_new k items = length (filter (\<lambda>x. item_event x = Some (True, k)) items)"

definition count_other :: "key \<Rightarrow> item list \<Rightarrow> nat" where
  "count_other k items = length (filter (\<lambda>x. item_event x = Some (False, k)) items)"

definition mentions :: "key \<Rightarrow> item list \<Rightarrow> bool" where
  "mentions k items = (\<exists>x \<in> set items. \<exists>b. item_event x = Some (b, k))"

text \<open>Reading the table as the \<open>defaultdict\<close> does: a missing key counts as \<open>0\<close>.\<close>

definition balance :: "table \<Rightarrow> key \<Rightarrow> int" where
  "balance t k = (case map_of t k of None \<Rightarrow> 0 | Some n \<Rightarrow> n)"



text \<open>The input line \<open>{"type": ty, "span": sp}\<close>, for the examples.\<close>

definition ev :: "pyval \<Rightarrow> pyval \<Rightarrow> item" where
  "ev ty sp = Line (JSON (PDict [(py ''type'', ty), (py ''span'', sp)]))"

definition new :: pyval where
  "new = PStr (py ''new'')"

definition close :: pyval where
  "close = PStr (py ''close'')"

section \<open>Properties\<close>

subsection \<open>The table after the input loop\<close>

lemma map_of_iadd:
  "map_of (iadd k d t) = (map_of t)(k \<mapsto> balance t k + d)"
  by (induction t) (auto simp: balance_def fun_eq_iff)

lemma keys_iadd: "fst ` set (iadd k d t) = insert k (fst ` set t)"
proof -
  have "fst ` set (iadd k d t) = dom (map_of (iadd k d t))"
    by (simp add: dom_map_of_conv_image_fst)
  also have "\<dots> = insert k (dom (map_of t))"
    by (simp add: map_of_iadd)
  finally show ?thesis
    by (simp add: dom_map_of_conv_image_fst)
qed

lemma body_Inr_iff:
  "body l t = Inr t' \<longleftrightarrow> (\<exists>b k. event l = Some (b, k) \<and> t' = iadd k (if b then 1 else - 1) t)"
  by (auto simp: body_def event_def split: sum.splits)

lemma body_Inl_iff:
  "(\<exists>e. body l t = Inl e) \<longleftrightarrow> event l = None"
  by (auto simp: body_def event_def split: sum.splits)

lemma for_lines_append:
  "for_lines (xs @ ys) t =
     (case for_lines xs t of (None, t') \<Rightarrow> for_lines ys t' | (Some e, t') \<Rightarrow> (Some e, t'))"
  by (induction xs t rule: for_lines.induct) (auto split: sum.splits)

lemma for_lines_ok_iff:
  "fst (for_lines items t) = None \<longleftrightarrow> (\<forall>x \<in> set items. item_event x \<noteq> None)"
proof (induction items t rule: for_lines.induct)
  case (3 l rest opened)
  show ?case
  proof (cases "body l opened")
    case (Inl e)
    then have "event l = None" using body_Inl_iff by blast
    with Inl show ?thesis by simp
  next
    case (Inr t')
    then have "event l \<noteq> None" using body_Inr_iff by fastforce
    with Inr 3 show ?thesis by simp
  qed
qed simp_all


lemma balance_iadd: "balance (iadd k d t) k' = (if k' = k then balance t k + d else balance t k')"
  by (simp add: balance_def map_of_iadd)

lemma count_new_simps:
  "count_new k [] = 0"
  "count_new k (x # xs) = (if item_event x = Some (True, k) then 1 else 0) + count_new k xs"
  by (simp_all add: count_new_def)

lemma count_other_simps:
  "count_other k [] = 0"
  "count_other k (x # xs) = (if item_event x = Some (False, k) then 1 else 0) + count_other k xs"
  by (simp_all add: count_other_def)

lemma mentions_simps:
  "mentions k [] = False"
  "mentions k (x # xs) = ((\<exists>b. item_event x = Some (b, k)) \<or> mentions k xs)"
  by (simp_all add: mentions_def)

lemma for_lines_balance:
  "fst (for_lines items t) = None \<Longrightarrow>
   balance (snd (for_lines items t)) k
     = balance t k + int (count_new k items) - int (count_other k items)"
proof (induction items arbitrary: t)
  case Nil
  show ?case by (simp add: count_new_simps count_other_simps)
next
  case (Cons x items)
  show ?case
  proof (cases x)
    case (Raises e)
    with Cons.prems show ?thesis by simp
  next
    case (Line l)
    show ?thesis
    proof (cases "body l t")
      case (Inl e)
      with Cons.prems Line show ?thesis by simp
    next
      case (Inr t')
      then obtain b k' where ev: "event l = Some (b, k')"
        and t': "t' = iadd k' (if b then 1 else - 1) t"
        using body_Inr_iff by blast
      from Cons.prems Line Inr have ok: "fst (for_lines items t') = None" by simp
      have step: "for_lines (x # items) t = for_lines items t'"
        using Line Inr by simp
      have "balance (snd (for_lines items t')) k
              = balance t' k + int (count_new k items) - int (count_other k items)"
        using Cons.IH [OF ok] .
      moreover have "balance t' k
              = balance t k + (if item_event x = Some (True, k) then 1 else 0)
                  - (if item_event x = Some (False, k) then 1 else 0)"
        using ev t' Line by (auto simp: balance_iadd)
      ultimately show ?thesis
        unfolding step by (simp add: count_new_simps count_other_simps)
    qed
  qed
qed

lemma for_lines_keys:
  "fst (for_lines items t) = None \<Longrightarrow>
   fst ` set (snd (for_lines items t)) = fst ` set t \<union> {k. mentions k items}"
proof (induction items arbitrary: t)
  case Nil
  show ?case by (simp add: mentions_simps)
next
  case (Cons x items)
  show ?case
  proof (cases x)
    case (Raises e)
    with Cons.prems show ?thesis by simp
  next
    case (Line l)
    show ?thesis
    proof (cases "body l t")
      case (Inl e)
      with Cons.prems Line show ?thesis by simp
    next
      case (Inr t')
      then obtain b k' where ev: "event l = Some (b, k')"
        and t': "t' = iadd k' (if b then 1 else - 1) t"
        using body_Inr_iff by blast
      from Cons.prems Line Inr have ok: "fst (for_lines items t') = None" by simp
      have step: "for_lines (x # items) t = for_lines items t'"
        using Line Inr by simp
      have "fst ` set (snd (for_lines items t')) = fst ` set t' \<union> {k. mentions k items}"
        using Cons.IH [OF ok] .
      moreover have "fst ` set t' = insert k' (fst ` set t)"
        using t' by (simp add: keys_iadd)
      moreover have "{k. mentions k (x # items)} = insert k' {k. mentions k items}"
        using ev Line by (auto simp: mentions_simps)
      ultimately show ?thesis
        unfolding step by auto
    qed
  qed
qed

lemma balance_entry: "k \<in> fst ` set t \<Longrightarrow> map_of t k = Some (balance t k)"
  by (auto simp: balance_def dom_map_of_conv_image_fst [symmetric] split: option.splits)

lemma for_lines_prefix_ok:
  "fst (for_lines (pre @ rest) t) = None \<Longrightarrow> fst (for_lines pre t) = None"
  by (simp add: for_lines_ok_iff)

lemma program_opened: "opened (program items) = snd (for_lines items [])"
  by (simp add: program_def try_block_def split: prod.splits option.splits)

subsection \<open>Exceptions of the loop body\<close>











lemma for_lines_raises:
  assumes "fst (for_lines pre t) = None"
  shows "for_lines (pre @ Raises e # post) t = (Some e, snd (for_lines pre t))"
  using assms by (cases "for_lines pre t") (auto simp: for_lines_append)


subsection \<open>The run as a whole\<close>

lemma exit_code_uncaught: "exit_code r = (if uncaught r = None then 0 else 1)"
  by (simp add: exit_code_def split: option.splits)


lemma for_items_none:
  "\<forall>(k, n) \<in> set t. n \<le> 0 \<Longrightarrow> for_items t d = (None, d)"
  by (induction t d rule: for_items.induct) auto

lemma for_items_some:
  "\<exists>(k, n) \<in> set t. n > 0 \<Longrightarrow> for_items t d = (Some AttributeError, d)"
  by (induction t d rule: for_items.induct) (auto simp: push_def)

lemma for_items_dict: "snd (for_items t d) = d"
  by (induction t d rule: for_items.induct) (auto simp: push_def)

lemma program_open: "open' (program items) = []"
proof (cases "try_block items")
  case (Pair ex t)
  show ?thesis
  proof (cases ex)
    case None
    obtain ex' d where f: "for_items t [] = (ex', d)"
      by (cases "for_items t []")
    then have "d = []"
      using for_items_dict [of t "[]"] by simp
    with Pair None f show ?thesis
      by (simp add: program_def)
  next
    case (Some e)
    with Pair show ?thesis
      by (simp add: program_def)
  qed
qed

lemma program_stdout: "stdout (program items) = []"
  by (simp add: program_def split: prod.splits option.splits)

lemma program_emission:
  "try_block items = (None, t) \<Longrightarrow>
   program items = \<lparr>uncaught = fst (for_items t []), opened = t,
                     open' = snd (for_items t []), stdout = []\<rparr>"
  by (simp add: program_def split: prod.splits)

lemma try_block_ok:
  "fst (for_lines items []) = None \<Longrightarrow> try_block items = (None, snd (for_lines items []))"
  by (cases "for_lines items []") (simp add: try_block_def)

text \<open>
  A \<open>BrokenPipeError\<close> of the iterator is caught: nothing after it is read, and the run
  is the run on the lines before it.
\<close>

lemma broken_pipe_caught:
  assumes "fst (for_lines pre []) = None"
  shows "try_block (pre @ Raises BrokenPipeError # post) = (None, snd (for_lines pre []))"
    and "program (pre @ Raises BrokenPipeError # post) = program pre"
proof -
  show tb: "try_block (pre @ Raises BrokenPipeError # post) = (None, snd (for_lines pre []))"
    using for_lines_raises [OF assms, of BrokenPipeError post]
    by (simp add: try_block_def)
  have "try_block pre = (None, snd (for_lines pre []))"
    using assms by (rule try_block_ok)
  with tb show "program (pre @ Raises BrokenPipeError # post) = program pre"
    by (simp add: program_def)
qed

subsection \<open>Counting and permutations\<close>

lemma for_lines_map_of:
  assumes "fst (for_lines items []) = None"
  shows "map_of (snd (for_lines items [])) k
           = (if mentions k items
              then Some (int (count_new k items) - int (count_other k items)) else None)"
proof (cases "mentions k items")
  case True
  then have "k \<in> fst ` set (snd (for_lines items []))"
    using for_lines_keys [OF assms] by simp
  then have "map_of (snd (for_lines items [])) k = Some (balance (snd (for_lines items [])) k)"
    by (rule balance_entry)
  then show ?thesis
    using True for_lines_balance [OF assms, of k] by (simp add: balance_def)
next
  case False
  then have "k \<notin> fst ` set (snd (for_lines items []))"
    using for_lines_keys [OF assms] by simp
  then show ?thesis
    using False by (simp add: map_of_eq_None_iff)
qed

lemma count_new_mset: "mset ys = mset xs \<Longrightarrow> count_new k ys = count_new k xs"
proof -
  assume "mset ys = mset xs"
  then have "mset (filter (\<lambda>x. item_event x = Some (True, k)) ys)
           = mset (filter (\<lambda>x. item_event x = Some (True, k)) xs)"
    by simp
  then show ?thesis
    unfolding count_new_def by (metis size_mset)
qed

lemma count_other_mset: "mset ys = mset xs \<Longrightarrow> count_other k ys = count_other k xs"
proof -
  assume "mset ys = mset xs"
  then have "mset (filter (\<lambda>x. item_event x = Some (False, k)) ys)
           = mset (filter (\<lambda>x. item_event x = Some (False, k)) xs)"
    by simp
  then show ?thesis
    unfolding count_other_def by (metis size_mset)
qed

lemma mentions_mset: "mset ys = mset xs \<Longrightarrow> mentions k ys = mentions k xs"
  unfolding mentions_def by (metis mset_eq_setD)

lemma hash_tuple_chars: "hash_tuple (map (\<lambda>c. PStr [c]) s) = Inr (map (\<lambda>c. AStr [c]) s)"
  by (induction s) simp_all

section \<open>Claims\<close>

subsection \<open>Balance invariant\<close>

text \<open>
  Claim C1. Let a sequence of events be processed without exception, and let \<open>pre\<close> be
  any prefix of it (the whole sequence included). After \<open>pre\<close> the balance of every key
  \<open>k\<close> is the number of \<open>"new"\<close> events for \<open>k\<close> in \<open>pre\<close> minus the number of its other
  events in \<open>pre\<close>; when \<open>k\<close> occurs in \<open>pre\<close> the table has an entry for \<open>k\<close> holding
  that number; every key of the table after \<open>pre\<close> is still a key of the final table;
  and the final table of the whole run holds that difference for every key that occurs.
  Entries may be negative, as the instance after the theorem shows.
\<close>

theorem balance_invariant:
  assumes "fst (for_lines (pre @ rest) []) = None"
  shows "balance (snd (for_lines pre [])) k
           = int (count_new k pre) - int (count_other k pre)
       \<and> (mentions k pre \<longrightarrow>
            map_of (snd (for_lines pre [])) k
              = Some (int (count_new k pre) - int (count_other k pre)))
       \<and> fst ` set (snd (for_lines pre [])) \<subseteq> fst ` set (snd (for_lines (pre @ rest) []))
       \<and> (mentions k (pre @ rest) \<longrightarrow>
            map_of (opened (program (pre @ rest))) k
              = Some (int (count_new k (pre @ rest)) - int (count_other k (pre @ rest))))"
proof -
  have ok: "fst (for_lines pre []) = None"
    using assms by (rule for_lines_prefix_ok)
  have bal: "balance (snd (for_lines xs [])) k
           = int (count_new k xs) - int (count_other k xs)"
    if "fst (for_lines xs []) = None" for xs
    using for_lines_balance [OF that, of k] by (simp add: balance_def)
  have ent: "map_of (snd (for_lines xs [])) k
              = Some (int (count_new k xs) - int (count_other k xs))"
    if "fst (for_lines xs []) = None" "mentions k xs" for xs
  proof -
    have "k \<in> fst ` set (snd (for_lines xs []))"
      using for_lines_keys [OF that(1)] that(2) by simp
    then show ?thesis
      using balance_entry bal [OF that(1)] by metis
  qed
  have mono: "fst ` set (snd (for_lines pre [])) \<subseteq> fst ` set (snd (for_lines (pre @ rest) []))"
    using for_lines_keys [OF ok] for_lines_keys [OF assms]
    by (auto simp: mentions_def)
  show ?thesis
    using bal [OF ok] ent [OF ok] ent [OF assms] mono
    by (simp add: program_opened)
qed

theorem balance_invariant_witness:
  "fst (for_lines [ev new (PList [PStr (py ''a'')]), ev close (PList [PStr (py ''a'')]),
                   ev close (PList [PStr (py ''a'')]), ev new (PList [PInt 7])] []) = None
   \<and> balance (snd (for_lines [ev new (PList [PStr (py ''a'')]),
                               ev close (PList [PStr (py ''a'')]),
                               ev close (PList [PStr (py ''a'')])] [])) [AStr (py ''a'')] = - 1
   \<and> map_of (opened (program [ev new (PList [PStr (py ''a'')]),
                                ev close (PList [PStr (py ''a'')]),
                                ev close (PList [PStr (py ''a'')]), ev new (PList [PInt 7])]))
        [AStr (py ''a'')] = Some (- 1)"
proof -
  let ?pre = "[ev new (PList [PStr (py ''a'')]), ev close (PList [PStr (py ''a'')]),
               ev close (PList [PStr (py ''a'')])]"
  let ?rest = "[ev new (PList [PInt 7])]"
  let ?all = "[ev new (PList [PStr (py ''a'')]), ev close (PList [PStr (py ''a'')]),
               ev close (PList [PStr (py ''a'')]), ev new (PList [PInt 7])]"
  have ok: "fst (for_lines (?pre @ ?rest) []) = None"
    by code_simp
  have cn: "count_new [AStr (py ''a'')] ?pre = 1" "count_other [AStr (py ''a'')] ?pre = 2"
    "count_new [AStr (py ''a'')] ?all = 1" "count_other [AStr (py ''a'')] ?all = 2"
    by code_simp+
  have m: "mentions [AStr (py ''a'')] ?all"
    by (simp add: mentions_def ev_def new_def event_def loads_def span_key_def py_def)
  show ?thesis
    using ok m balance_invariant [OF ok, of "[AStr (py ''a'')]"] by (simp add: cn)
qed

subsection \<open>Open Set\<close>

text \<open>
  Claim C2 asks that a key be in the Open Set exactly when its final balance is strictly
  positive. On the single line \<open>{"type": "new", "span": ["a"]}\<close> the final balance of
  \<open>("a",)\<close> is \<open>1\<close>, yet the emission loop raises \<open>AttributeError\<close> at
  \<open>open.push(k)\<close> and \<open>open\<close> stays empty: the key with the positive balance is not in
  it.
\<close>

theorem open_set_misses_positive_key:
  "balance (opened (program [ev new (PList [PStr (py ''a'')])])) [AStr (py ''a'')] = 1
   \<and> uncaught (program [ev new (PList [PStr (py ''a'')])]) = Some AttributeError
   \<and> open' (program [ev new (PList [PStr (py ''a'')])]) = []"
  by code_simp

subsection \<open>The emission step\<close>

text \<open>
  Claim C3, as amended. Whatever the input, the script writes nothing to standard
  output and \<open>open\<close> is empty at the end. When the input loop ends (by exhaustion or
  by a suppressed \<open>BrokenPipeError\<close>) with a table \<open>t\<close> that has a strictly positive
  count, the emission loop raises \<open>AttributeError\<close> at \<open>open.push\<close>, the exception is
  uncaught and the exit status is \<open>1\<close>. (Without a strictly positive count the loop
  completes: see the counterexample that follows and C10.)
\<close>

theorem emission_raises_on_positive:
  "stdout (program items) = []
   \<and> open' (program items) = []
   \<and> (try_block items = (None, t) \<and> (\<exists>(k, n) \<in> set t. n > 0) \<longrightarrow>
        for_items t [] = (Some AttributeError, [])
      \<and> uncaught (program items) = Some AttributeError
      \<and> exit_code (program items) = 1)"
  using for_items_some [of t "[]"] program_emission [of items t]
  by (simp add: program_stdout program_open exit_code_uncaught)

theorem emission_completes_counterexample:
  "for_items (opened (program [ev close (PList [PStr (py ''x'')])])) [] = (None, [])
   \<and> uncaught (program [ev close (PList [PStr (py ''x'')])]) = None
   \<and> exit_code (program [ev close (PList [PStr (py ''x'')])]) = 0"
  by code_simp

theorem emission_raises_on_positive_witness:
  "try_block [ev new (PList [PStr (py ''b''), PInt 2])] = (None, [([AStr (py ''b''), ANum 2], 1)])
   \<and> (\<exists>(k, n) \<in> set [([AStr (py ''b''), ANum 2], 1 :: int)]. n > 0)
   \<and> uncaught (program [ev new (PList [PStr (py ''b''), PInt 2])]) = Some AttributeError
   \<and> exit_code (program [ev new (PList [PStr (py ''b''), PInt 2])]) = 1
   \<and> stdout (program [ev new (PList [PStr (py ''b''), PInt 2])]) = []"
proof -
  have t: "try_block [ev new (PList [PStr (py ''b''), PInt 2])]
             = (None, [([AStr (py ''b''), ANum 2], 1)])"
    by code_simp
  show ?thesis
    using t emission_raises_on_positive
      [of "[ev new (PList [PStr (py ''b''), PInt 2])]" "[([AStr (py ''b''), ANum 2], 1)]"]
    by simp
qed

subsection \<open>Broken pipe\<close>


subsection \<open>Malformed input\<close>



subsection \<open>Order independence of counting\<close>

text \<open>
  Claim C6. If \<open>ys\<close> is a permutation of a sequence \<open>xs\<close> of events that is processed
  without exception, then \<open>ys\<close> is processed without exception too and the final tables
  agree on every key (entry and balance), whether the events moved belong to one key or
  to several. Intermediate balances do depend on the order: after the first event of
  \<open>new a, close a\<close> the balance of \<open>a\<close> is \<open>1\<close>, after the first event of
  \<open>close a, new a\<close> it is \<open>-1\<close>.
\<close>

theorem counting_order_independent:
  "(mset ys = mset xs \<and> fst (for_lines xs []) = None \<longrightarrow>
      fst (for_lines ys []) = None
    \<and> (\<forall>k. map_of (opened (program ys)) k = map_of (opened (program xs)) k)
    \<and> (\<forall>k. balance (opened (program ys)) k = balance (opened (program xs)) k))
   \<and> balance (snd (for_lines (take 1 [ev new (PList [PStr (py ''a'')]),
                                       ev close (PList [PStr (py ''a'')])]) []))
        [AStr (py ''a'')] = 1
   \<and> balance (snd (for_lines (take 1 [ev close (PList [PStr (py ''a'')]),
                                       ev new (PList [PStr (py ''a'')])]) []))
        [AStr (py ''a'')] = - 1"
proof -
  have perm: "fst (for_lines ys []) = None
    \<and> (\<forall>k. map_of (opened (program ys)) k = map_of (opened (program xs)) k)
    \<and> (\<forall>k. balance (opened (program ys)) k = balance (opened (program xs)) k)"
    if m: "mset ys = mset xs" and ok: "fst (for_lines xs []) = None"
  proof -
    have "set ys = set xs"
      using m by (rule mset_eq_setD)
    then have ok': "fst (for_lines ys []) = None"
      using ok by (simp add: for_lines_ok_iff)
    have "map_of (snd (for_lines ys [])) k = map_of (snd (for_lines xs [])) k" for k
      unfolding for_lines_map_of [OF ok] for_lines_map_of [OF ok']
      by (simp add: count_new_mset [OF m] count_other_mset [OF m] mentions_mset [OF m])
    then show ?thesis
      using ok' by (simp add: program_opened balance_def)
  qed
  have ex1: "balance (snd (for_lines (take 1 [ev new (PList [PStr (py ''a'')]),
                                       ev close (PList [PStr (py ''a'')])]) []))
        [AStr (py ''a'')] = 1"
    by code_simp
  have ex2: "balance (snd (for_lines (take 1 [ev close (PList [PStr (py ''a'')]),
                                       ev new (PList [PStr (py ''a'')])]) []))
        [AStr (py ''a'')] = - 1"
    by code_simp
  show ?thesis
    using perm ex1 ex2 by blast
qed

theorem counting_order_independent_witness:
  "mset [ev close (PList [PStr (py ''a'')]), ev new (PList [PInt 7]),
         ev new (PList [PStr (py ''a'')])]
     = mset [ev new (PList [PStr (py ''a'')]), ev close (PList [PStr (py ''a'')]),
             ev new (PList [PInt 7])]
   \<and> fst (for_lines [ev new (PList [PStr (py ''a'')]), ev close (PList [PStr (py ''a'')]),
                      ev new (PList [PInt 7])] []) = None
   \<and> balance (opened (program [ev close (PList [PStr (py ''a'')]), ev new (PList [PInt 7]),
                                 ev new (PList [PStr (py ''a'')])])) [ANum 7]
       = balance (opened (program [ev new (PList [PStr (py ''a'')]),
                                   ev close (PList [PStr (py ''a'')]),
                                   ev new (PList [PInt 7])])) [ANum 7]
   \<and> balance (opened (program [ev new (PList [PStr (py ''a'')]),
                                 ev close (PList [PStr (py ''a'')]),
                                 ev new (PList [PInt 7])])) [ANum 7] = 1"
proof -
  let ?xs = "[ev new (PList [PStr (py ''a'')]), ev close (PList [PStr (py ''a'')]),
              ev new (PList [PInt 7])]"
  let ?ys = "[ev close (PList [PStr (py ''a'')]), ev new (PList [PInt 7]),
              ev new (PList [PStr (py ''a'')])]"
  have m: "mset ?ys = mset ?xs"
    by (simp add: ev_def new_def close_def py_def)
  have ok: "fst (for_lines ?xs []) = None"
    by code_simp
  have v: "balance (opened (program ?xs)) [ANum 7] = 1"
    by code_simp
  have "balance (opened (program ?ys)) [ANum 7] = balance (opened (program ?xs)) [ANum 7]"
    using counting_order_independent [of ?ys ?xs] m ok by blast
  then show ?thesis
    using m ok v by blast
qed

subsection \<open>Double open\<close>

text \<open>
  Claim C7 asks that after two \<open>"new"\<close> events for one key and no other event the
  balance be \<open>2\<close> and the key occur exactly once in the Open Set. On the two lines
  \<open>{"type": "new", "span": ["s", 1]}\<close> the balance is \<open>2\<close>, but the emission loop raises
  \<open>AttributeError\<close> at \<open>open.push(k)\<close> and the key occurs in \<open>open\<close> zero times.
\<close>

theorem double_open_not_listed:
  "balance (opened (program [ev new (PList [PStr (py ''s''), PInt 1]),
                             ev new (PList [PStr (py ''s''), PInt 1])]))
     [AStr (py ''s''), ANum 1] = 2
   \<and> uncaught (program [ev new (PList [PStr (py ''s''), PInt 1]),
                        ev new (PList [PStr (py ''s''), PInt 1])]) = Some AttributeError
   \<and> length (filter (\<lambda>(k, v). k = [AStr (py ''s''), ANum 1])
        (open' (program [ev new (PList [PStr (py ''s''), PInt 1]),
                         ev new (PList [PStr (py ''s''), PInt 1])]))) = 0"
  by code_simp

subsection \<open>Events of another type\<close>

text \<open>
  Claim C8. Let \<open>obj['type']\<close> be any value other than the string \<open>"new"\<close>: a number,
  \<open>None\<close>, a boolean, a list, a dict or another string. Then the loop body takes the
  \<open>else\<close> branch: it raises only what computing the span key raises, and when the span
  has a key \<open>k\<close> it lowers the balance of \<open>k\<close> by one and leaves every other balance
  as it was. The type of \<open>obj['type']\<close> is never inspected.
\<close>

theorem other_type_decrements:
  assumes "getitem obj (py ''type'') = Inr ty" and "ty \<noteq> PStr (py ''new'')"
  shows "body (JSON obj) t
           = (case span_key obj of Inl e \<Rightarrow> Inl e | Inr k \<Rightarrow> Inr (iadd k (- 1) t))
       \<and> (\<forall>k. span_key obj = Inr k \<longrightarrow>
            body (JSON obj) t = Inr (iadd k (- 1) t)
          \<and> balance (iadd k (- 1) t) k = balance t k - 1
          \<and> (\<forall>k'. k' \<noteq> k \<longrightarrow> balance (iadd k (- 1) t) k' = balance t k'))"
  using assms by (simp add: body_def loads_def balance_iadd)

theorem other_type_decrements_witness:
  "getitem (PDict [(py ''type'', PInt 5), (py ''span'', PList [PStr (py ''x'')])]) (py ''type'')
     = Inr (PInt 5)
   \<and> PInt 5 \<noteq> PStr (py ''new'')
   \<and> body (JSON (PDict [(py ''type'', PInt 5), (py ''span'', PList [PStr (py ''x'')])]))
        [([AStr (py ''x'')], 1)] = Inr [([AStr (py ''x'')], 0)]
   \<and> body (JSON (PDict [(py ''type'', PNone), (py ''span'', PList [PStr (py ''x'')])])) []
        = Inr [([AStr (py ''x'')], - 1)]
   \<and> body (JSON (PDict [(py ''type'', PList [PStr (py ''new'')]),
                         (py ''span'', PList [PStr (py ''x'')])])) []
        = Inr [([AStr (py ''x'')], - 1)]"
proof -
  let ?sp = "(py ''span'', PList [PStr (py ''x'')])"
  have g: "getitem (PDict [(py ''type'', v), ?sp]) (py ''type'') = Inr v" for v
    by (simp add: py_def)
  have k: "span_key (PDict [(py ''type'', v), ?sp]) = Inr [AStr (py ''x'')]" for v
    by (simp add: span_key_def py_def)
  have n: "PInt 5 \<noteq> PStr (py ''new'')" "PNone \<noteq> PStr (py ''new'')"
    "PList [PStr (py ''new'')] \<noteq> PStr (py ''new'')"
    by simp_all
  show ?thesis
    using g [of "PInt 5"] n(1)
      other_type_decrements [OF g n(1), of "[([AStr (py ''x'')], 1)]"]
      other_type_decrements [OF g n(2), of "[]"]
      other_type_decrements [OF g n(3), of "[]"]
    by (simp add: k)
qed

subsection \<open>Spans given as strings\<close>

text \<open>
  Claim C9. A span that is the string \<open>s\<close> and a span that is the list of the
  one-character strings of \<open>s\<close> have the same key, the tuple of those characters. The
  spans \<open>"ab"\<close> and \<open>["a", "b"]\<close> are distinct values, and two \<open>"new"\<close> events with
  them leave one table entry with count \<open>2\<close>.
\<close>

theorem str_span_shares_entry:
  "(getitem obj1 (py ''span'') = Inr (PStr s)
      \<and> getitem obj2 (py ''span'') = Inr (PList (map (\<lambda>c. PStr [c]) s)) \<longrightarrow>
        span_key obj1 = Inr (map (\<lambda>c. AStr [c]) s)
      \<and> span_key obj2 = Inr (map (\<lambda>c. AStr [c]) s))
   \<and> PStr (py ''ab'') \<noteq> PList [PStr (py ''a''), PStr (py ''b'')]
   \<and> for_lines [ev new (PStr (py ''ab'')), ev new (PList [PStr (py ''a''), PStr (py ''b'')])] []
       = (None, [([AStr (py ''a''), AStr (py ''b'')], 2)])"
proof -
  have ex: "for_lines [ev new (PStr (py ''ab'')),
                       ev new (PList [PStr (py ''a''), PStr (py ''b'')])] []
       = (None, [([AStr (py ''a''), AStr (py ''b'')], 2)])"
    by code_simp
  show ?thesis
    using ex by (simp add: span_key_def hash_tuple_chars)
qed

theorem str_span_shares_entry_witness:
  "getitem (PDict [(py ''type'', new), (py ''span'', PStr (py ''ab''))]) (py ''span'')
     = Inr (PStr (py ''ab''))
   \<and> getitem (PDict [(py ''span'', PList [PStr (py ''a''), PStr (py ''b'')]),
                      (py ''type'', close)]) (py ''span'')
     = Inr (PList (map (\<lambda>c. PStr [c]) (py ''ab'')))
   \<and> span_key (PDict [(py ''type'', new), (py ''span'', PStr (py ''ab''))])
     = span_key (PDict [(py ''span'', PList [PStr (py ''a''), PStr (py ''b'')]),
                        (py ''type'', close)])"
proof -
  have g1: "getitem (PDict [(py ''type'', new), (py ''span'', PStr (py ''ab''))]) (py ''span'')
     = Inr (PStr (py ''ab''))"
    by (simp add: py_def)
  have g2: "getitem (PDict [(py ''span'', PList [PStr (py ''a''), PStr (py ''b'')]),
                      (py ''type'', close)]) (py ''span'')
     = Inr (PList (map (\<lambda>c. PStr [c]) (py ''ab'')))"
    by (simp add: py_def)
  show ?thesis
    using g1 g2 str_span_shares_entry
      [of "PDict [(py ''type'', new), (py ''span'', PStr (py ''ab''))]" "py ''ab''"
          "PDict [(py ''span'', PList [PStr (py ''a''), PStr (py ''b'')]), (py ''type'', close)]"]
    by metis
qed

subsection \<open>No open span\<close>

text \<open>
  Claim C10. When the input loop ends (by exhaustion or by a suppressed
  \<open>BrokenPipeError\<close>) with a table without strictly positive count, as on empty
  input, the emission loop runs through without reaching \<open>open.push\<close>: it raises nothing
  and leaves its dictionary unchanged, and the run ends with exit status \<open>0\<close>, \<open>open\<close>
  empty and no output.
\<close>

theorem no_positive_balance_exits_cleanly:
  assumes "try_block items = (None, t)" and "\<forall>(k, n) \<in> set t. \<not> n > 0"
  shows "for_items t d = (None, d)
       \<and> uncaught (program items) = None
       \<and> exit_code (program items) = 0
       \<and> open' (program items) = []
       \<and> stdout (program items) = []"
proof -
  have le: "\<forall>(k, n) \<in> set t. n \<le> 0"
    using assms(2) by auto
  show ?thesis
    using for_items_none [OF le] program_emission [OF assms(1)]
    by (simp add: exit_code_uncaught)
qed

theorem no_positive_balance_exits_cleanly_witness:
  "try_block [ev close (PList [PStr (py ''x'')]), ev new (PList [PStr (py ''y'')]),
              ev close (PList [PStr (py ''y'')])]
     = (None, [([AStr (py ''x'')], - 1), ([AStr (py ''y'')], 0)])
   \<and> \<not> (- 1 :: int) > 0 \<and> \<not> (0 :: int) > 0
   \<and> uncaught (program [ev close (PList [PStr (py ''x'')]), ev new (PList [PStr (py ''y'')]),
                         ev close (PList [PStr (py ''y'')])]) = None
   \<and> exit_code (program [ev close (PList [PStr (py ''x'')]), ev new (PList [PStr (py ''y'')]),
                          ev close (PList [PStr (py ''y'')])]) = 0
   \<and> stdout (program [ev close (PList [PStr (py ''x'')]), ev new (PList [PStr (py ''y'')]),
                       ev close (PList [PStr (py ''y'')])]) = []
   \<and> uncaught (program []) = None"
proof -
  have t: "try_block [ev close (PList [PStr (py ''x'')]), ev new (PList [PStr (py ''y'')]),
              ev close (PList [PStr (py ''y'')])]
     = (None, [([AStr (py ''x'')], - 1), ([AStr (py ''y'')], 0)])"
    by code_simp
  have p: "\<forall>(k, n) \<in> set [([AStr (py ''x'')], - 1 :: int), ([AStr (py ''y'')], 0)]. \<not> n > 0"
    by simp
  have t0: "try_block [] = (None, [])"
    by (simp add: try_block_def)
  have p0: "\<forall>(k, n) \<in> set ([] :: table). \<not> n > 0"
    by simp
  have q: "\<not> (- 1 :: int) > 0 \<and> \<not> (0 :: int) > 0"
    by simp
  show ?thesis
    using t q no_positive_balance_exits_cleanly [OF t p]
      no_positive_balance_exits_cleanly [OF t0 p0]
    by blast
qed

end
